theory Spec2Isabelle
  imports Complex_Main "HOL-Library.Multiset"
begin

section \<open>The scoring engine of \<^verbatim>\<open>06_compute_scores.py\<close>\<close>

text \<open>
  The module computes, for each restaurant, an iconic and a trending score from its
  Reddit mentions. Python's \<^verbatim>\<open>int\<close> is \<^typ>\<open>int\<close>, a \<^verbatim>\<open>datetime\<close> is the number of
  microseconds since a fixed epoch, a \<^verbatim>\<open>str\<close> is a \<^typ>\<open>string\<close>, one \<^typ>\<open>char\<close> for
  each character.

  A \<^verbatim>\<open>float\<close> is modelled by the \<^typ>\<open>real\<close> it approximates. The exceptions of
  the functions on floats are part of the model. The rounding of their results is not:
  two reals that differ can be one double, so no property of the scores below rests on
  two results being different. Where the code's doubles are known to coincide, for the
  decay of a large age, which \<^verbatim>\<open>math.exp\<close> returns as \<^verbatim>\<open>0.0\<close>,
  \<open>recency_decay_double\<close> says so.
\<close>

subsection \<open>Exceptions\<close>

text \<open>
  The exceptions the scoring code can raise on well-typed arguments:
  \<^verbatim>\<open>math.sqrt\<close> raises \<^verbatim>\<open>ValueError\<close> (math domain error) on a negative argument,
  \<^verbatim>\<open>math.exp\<close> raises \<^verbatim>\<open>OverflowError\<close> (math range error) when its result is too
  large for a double, and the division in \<^verbatim>\<open>recency_decay\<close> raises
  \<^verbatim>\<open>ZeroDivisionError\<close>.
\<close>

datatype error = ValueError | OverflowError | ZeroDivisionError

subsection \<open>Scoring parameters\<close>

definition HALF_LIFE_DAYS :: int where
  "HALF_LIFE_DAYS = 45"

definition TRENDING_WINDOW_DAYS :: int where
  "TRENDING_WINDOW_DAYS = 90"

definition MIN_THREADS :: nat where
  "MIN_THREADS = 2"

definition MIN_TOTAL_UPVOTES :: int where
  "MIN_TOTAL_UPVOTES = 10"

subsection \<open>Decay and the score of one mention\<close>

text \<open>
  \<^verbatim>\<open>math.exp(x)\<close>: the doubles end just below 2 to the power 1024, and the call raises
  when the exponential is beyond them, that is, when \<open>x\<close> is above \<open>1024 * ln 2\<close>, about
  709.78. With the half life of 45 days the age \<open>- 46080\<close> is the last one that does
  not raise.
\<close>

definition math_exp :: "real \<Rightarrow> error + real" where
  "math_exp x = (if 1024 * ln 2 < x then Inl OverflowError else Inr (exp x))"

text \<open>
  \<^verbatim>\<open>k = math.log(2) / half_life; return math.exp(-k * age_days)\<close>
\<close>

definition recency_decay :: "real \<Rightarrow> real \<Rightarrow> error + real" where
  "recency_decay age_days half_life =
     (if half_life = 0 then Inl ZeroDivisionError
      else let k = ln 2 / half_life in math_exp (- k * age_days))"



text \<open>
  \<^verbatim>\<open>math.sqrt\<close> of an integer: the argument is converted to a float, and a negative
  one raises. The conversion of an integer of 2 to the power 1024 or more raises
  \<^verbatim>\<open>OverflowError\<close>; upvote counts, which come from an integer column of the
  database, are far below that, and the case is not in the model. What is proved of
  exceptions is stated of upvote counts below 2 to the power 1023.
\<close>

definition math_sqrt :: "int \<Rightarrow> error + real" where
  "math_sqrt n = (if n < 0 then Inl ValueError else Inr (sqrt (real_of_int n)))"

text \<open>
  \<^verbatim>\<open>mention_score(comment_upvotes, post_upvotes, age_days, context_chars)\<close>: the two
  square roots are taken first, left to right, then the decay with the default half
  life, then the context boost.
\<close>

definition mention_score :: "int \<Rightarrow> int \<Rightarrow> real \<Rightarrow> int \<Rightarrow> error + real" where
  "mention_score comment_upvotes post_upvotes age_days context_chars =
     (case math_sqrt (comment_upvotes + 1) of
        Inl e \<Rightarrow> Inl e
      | Inr sc \<Rightarrow>
          (case math_sqrt (post_upvotes + 1) of
             Inl e \<Rightarrow> Inl e
           | Inr sp \<Rightarrow>
               (let upvote_weight = sc + 0.3 * sp in
                case recency_decay age_days (real_of_int HALF_LIFE_DAYS) of
                  Inl e \<Rightarrow> Inl e
                | Inr decay \<Rightarrow>
                    (let context_boost = 1.0 + min 0.3 (real_of_int context_chars / 10000)
                     in Inr (upvote_weight * decay * context_boost)))))"

subsection \<open>Mentions and aggregates\<close>

text \<open>
  A mention is the dictionary that \<^verbatim>\<open>compute_restaurant_scores\<close> reads: the keys
  \<^verbatim>\<open>subreddit\<close>, \<^verbatim>\<open>post_id\<close>, \<^verbatim>\<open>comment_id\<close> (which may be \<^verbatim>\<open>None\<close>), \<^verbatim>\<open>score\<close>,
  \<^verbatim>\<open>timestamp\<close> and \<^verbatim>\<open>snippet\<close>, and the optional key \<^verbatim>\<open>post_upvotes\<close>, read with
  \<^verbatim>\<open>mention.get("post_upvotes", 0)\<close>.
\<close>

record mention =
  subreddit :: string
  post_id :: string
  comment_id :: "string option"
  score :: int
  post_upvotes :: "int option"
  timestamp :: int
  snippet :: string

text \<open>One entry of \<^verbatim>\<open>top_snippets\<close>: the keys \<^verbatim>\<open>text\<close>, \<^verbatim>\<open>score\<close> and \<^verbatim>\<open>permalink\<close>.\<close>

record top_snippet =
  snippet_text :: string
  snippet_score :: int
  permalink :: string

text \<open>The dictionary that \<^verbatim>\<open>compute_restaurant_scores\<close> returns.\<close>

record aggregate =
  place_id :: string
  iconic_score :: real
  trending_score :: real
  mentions_90d :: nat
  unique_threads :: nat
  total_mentions :: nat
  total_upvotes :: int
  last_seen :: int
  top_snippets :: "top_snippet list"

subsection \<open>Library functions of Python\<close>

text \<open>
  \<^verbatim>\<open>s.replace(old, new)\<close>: the occurrences of \<^verbatim>\<open>old\<close> are found from the left, without
  overlap, and each is replaced; an empty \<^verbatim>\<open>old\<close> matches before every character and
  at the end.
\<close>

fun py_replace :: "string \<Rightarrow> string \<Rightarrow> string \<Rightarrow> string" where
  "py_replace old new [] = (if old = [] then new else [])"
| "py_replace old new (c # cs) =
     (if old = [] then new @ c # py_replace old new cs
      else if take (length old) (c # cs) = old
           then new @ py_replace old new (drop (length old) (c # cs))
           else c # py_replace old new cs)"

text \<open>
  \<^verbatim>\<open>round(x, 2)\<close> on a float: the nearest multiple of one hundredth, a tie going to
  the even hundredth.
\<close>

definition py_round2 :: "real \<Rightarrow> real" where
  "py_round2 x =
     (let y = x * 100; f = \<lfloor>y\<rfloor>; d = y - of_int f
      in (if d < 1 / 2 then of_int f
          else if 1 / 2 < d then of_int (f + 1)
          else if even f then of_int f else of_int (f + 1)) / 100)"

text \<open>
  \<^verbatim>\<open>sorted(mentions, key=lambda m: m["score"], reverse=True)\<close>: descending in the key,
  and stable, so mentions of equal score keep the order they have in the argument.
\<close>

definition sorted_by_score_reverse :: "mention list \<Rightarrow> mention list" where
  "sorted_by_score_reverse mentions = sort_key (\<lambda>m. - score m) mentions"

text \<open>
  \<^verbatim>\<open>(now - mention["timestamp"]).days\<close>: the difference of two datetimes is a timedelta,
  normalised so that its \<^verbatim>\<open>days\<close> field is the floor of the difference in days.
\<close>

definition age_days_of :: "int \<Rightarrow> mention \<Rightarrow> int" where
  "age_days_of now m = (now - timestamp m) div 86400000000"

subsection \<open>The scores of one restaurant\<close>

text \<open>\<^verbatim>\<open>len(set(m["post_id"] for m in mentions))\<close>\<close>

definition count_unique_threads :: "mention list \<Rightarrow> nat" where
  "count_unique_threads mentions = card (set (map post_id mentions))"

text \<open>\<^verbatim>\<open>sum(m["score"] for m in mentions)\<close>\<close>

definition sum_upvotes :: "mention list \<Rightarrow> int" where
  "sum_upvotes mentions = sum_list (map score mentions)"

text \<open>\<^verbatim>\<open>mention.get("post_upvotes", 0)\<close>\<close>

definition get_post_upvotes :: "mention \<Rightarrow> int" where
  "get_post_upvotes m = (case post_upvotes m of None \<Rightarrow> 0 | Some p \<Rightarrow> p)"

text \<open>
  The loop of lines 91 to 108 over the mentions, on the state
  \<^verbatim>\<open>(iconic_score, trending_score, mentions_90d)\<close>; an exception of \<^verbatim>\<open>mention_score\<close>
  leaves the loop.
\<close>

fun score_loop :: "int \<Rightarrow> mention list \<Rightarrow> real \<times> real \<times> nat \<Rightarrow> error + real \<times> real \<times> nat" where
  "score_loop now [] acc = Inr acc"
| "score_loop now (m # ms) (iconic, trending, n90) =
     (let age_days = age_days_of now m;
          context_chars = int (length (snippet m))
      in case mention_score (score m) (get_post_upvotes m)
                (real_of_int age_days) context_chars of
           Inl e \<Rightarrow> Inl e
         | Inr s \<Rightarrow>
             (if age_days \<le> TRENDING_WINDOW_DAYS
              then score_loop now ms (iconic + s, trending + s, n90 + 1)
              else score_loop now ms (iconic + s, trending, n90)))"

text \<open>
  The permalink of lines 116 and 117; the suffix is added when \<^verbatim>\<open>m.get("comment_id")\<close>
  is true, that is, neither \<^verbatim>\<open>None\<close> nor the empty string.
\<close>

definition permalink_of :: "mention \<Rightarrow> string" where
  "permalink_of m =
     ''https://reddit.com/r/'' @ subreddit m @ ''/comments/''
       @ py_replace ''t3_'' [] (post_id m)
       @ (case comment_id m of
            None \<Rightarrow> []
          | Some c \<Rightarrow> (if c = [] then [] else ''/_/'' @ py_replace ''t1_'' [] c))"

definition snippet_of :: "mention \<Rightarrow> top_snippet" where
  "snippet_of m =
     \<lparr>snippet_text = take 200 (snippet m), snippet_score = score m,
      permalink = permalink_of m\<rparr>"

text \<open>
  The top snippets of lines 111 to 120: the first three mentions of the sorted list,
  each with its text cut to 200 characters.
\<close>

definition top_snippets_of :: "mention list \<Rightarrow> top_snippet list" where
  "top_snippets_of mentions = map snippet_of (take 3 (sorted_by_score_reverse mentions))"

text \<open>\<^verbatim>\<open>max(m["timestamp"] for m in mentions)\<close>, on a list that is not empty.\<close>

definition max_timestamp :: "mention list \<Rightarrow> int" where
  "max_timestamp mentions = fold max (map timestamp (tl mentions)) (timestamp (hd mentions))"

text \<open>
  \<^verbatim>\<open>compute_restaurant_scores(place_id, mentions)\<close>. The first argument \<open>now\<close> is what
  \<^verbatim>\<open>datetime.now()\<close> returns at line 84. The result is \<open>Inr None\<close> for \<^verbatim>\<open>return None\<close>,
  \<open>Inr (Some a)\<close> for the returned dictionary and \<open>Inl e\<close> for an exception.
\<close>

definition compute_restaurant_scores :: "int \<Rightarrow> string \<Rightarrow> mention list \<Rightarrow> error + aggregate option" where
  "compute_restaurant_scores now place mentions =
     (if mentions = [] then Inr None
      else if count_unique_threads mentions < MIN_THREADS
              \<and> sum_upvotes mentions < MIN_TOTAL_UPVOTES then Inr None
      else case score_loop now mentions (0, 0, 0) of
             Inl e \<Rightarrow> Inl e
           | Inr (iconic, trending, n90) \<Rightarrow>
               Inr (Some \<lparr>place_id = place,
                          iconic_score = py_round2 iconic,
                          trending_score = py_round2 trending,
                          mentions_90d = n90,
                          unique_threads = count_unique_threads mentions,
                          total_mentions = length mentions,
                          total_upvotes = sum_upvotes mentions,
                          last_seen = max_timestamp mentions,
                          top_snippets = top_snippets_of mentions\<rparr>))"

subsection \<open>The batch job, without its database access\<close>

text \<open>
  A row of the query of \<^verbatim>\<open>recompute_all_scores\<close>:
  \<^verbatim>\<open>place_id, subreddit, post_id, comment_id, score, timestamp, snippet\<close>.
\<close>

type_synonym row = "string \<times> string \<times> string \<times> string option \<times> int \<times> int \<times> string"

text \<open>
  \<^verbatim>\<open>mentions_by_place\<close> is a dictionary of lists; a dictionary keeps its keys in the
  order of their first insertion, so it is an association list here. One step of the
  loop of lines 172 to 185 appends the mention to the list of its place.
\<close>

fun append_mention :: "string \<Rightarrow> mention \<Rightarrow> (string \<times> mention list) list \<Rightarrow> (string \<times> mention list) list" where
  "append_mention p m [] = [(p, [m])]"
| "append_mention p m ((q, ms) # d) =
     (if q = p then (q, ms @ [m]) # d else (q, ms) # append_mention p m d)"

fun mention_of_row :: "row \<Rightarrow> string \<times> mention" where
  "mention_of_row (place, sub, post, com, sc, ts, snip) =
     (place, \<lparr>subreddit = sub, post_id = post, comment_id = com, score = sc,
              post_upvotes = None, timestamp = ts, snippet = snip\<rparr>)"

definition mentions_by_place :: "row list \<Rightarrow> (string \<times> mention list) list" where
  "mentions_by_place rows =
     foldl (\<lambda>d r. case mention_of_row r of (p, m) \<Rightarrow> append_mention p m d) [] rows"

text \<open>
  The loop of lines 192 to 196. Every call of \<^verbatim>\<open>compute_restaurant_scores\<close> that
  passes the evidence rule reads the clock once: \<open>clock k\<close> is the reading of the
  \<open>k\<close>-th such call of the run. An aggregate is kept when it is not \<^verbatim>\<open>None\<close>.
\<close>

fun compute_all :: "(nat \<Rightarrow> int) \<Rightarrow> nat \<Rightarrow> (string \<times> mention list) list \<Rightarrow> error + aggregate list" where
  "compute_all clock k [] = Inr []"
| "compute_all clock k ((p, ms) # rest) =
     (case compute_restaurant_scores (clock k) p ms of
        Inl e \<Rightarrow> Inl e
      | Inr None \<Rightarrow> compute_all clock k rest
      | Inr (Some agg) \<Rightarrow>
          (case compute_all clock (Suc k) rest of
             Inl e \<Rightarrow> Inl e
           | Inr aggs \<Rightarrow> Inr (agg # aggs)))"

text \<open>
  The list \<^verbatim>\<open>aggregations\<close> that \<^verbatim>\<open>recompute_all_scores\<close> builds from the rows it
  fetched (lines 170 to 196), which it then writes to the table.
\<close>

definition aggregations :: "(nat \<Rightarrow> int) \<Rightarrow> row list \<Rightarrow> error + aggregate list" where
  "aggregations clock rows = compute_all clock 0 (mentions_by_place rows)"

subsection \<open>What the specification says of snippets and permalinks\<close>

text \<open>
  The definitions of this subsection are not translations of the code. The first three
  follow the words of the specification, and are compared with the code's functions
  below.

  The specification sorts the mentions by upvote count, descending, and breaks a tie by
  the earlier timestamp: a stable sort by timestamp followed by a stable sort by
  descending score.
\<close>

definition spec_top_snippets :: "mention list \<Rightarrow> top_snippet list" where
  "spec_top_snippets mentions =
     map snippet_of (take 3 (sort_key (\<lambda>m. - score m) (sort_key timestamp mentions)))"

text \<open>
  The specification strips the type prefix of an identifier, and appends the comment
  part when a comment identifier is present.
\<close>

definition strip_type_prefix :: "string \<Rightarrow> string \<Rightarrow> string" where
  "strip_type_prefix pre s = (if take (length pre) s = pre then drop (length pre) s else s)"

definition spec_permalink :: "mention \<Rightarrow> string" where
  "spec_permalink m =
     ''https://reddit.com/r/'' @ subreddit m @ ''/comments/''
       @ strip_type_prefix ''t3_'' (post_id m)
       @ (case comment_id m of
            None \<Rightarrow> []
          | Some c \<Rightarrow> ''/_/'' @ strip_type_prefix ''t1_'' c)"

text \<open>
  Python's \<^verbatim>\<open>old in s\<close> on strings: \<^verbatim>\<open>old\<close> occurs in \<^verbatim>\<open>s\<close>. The code does not call
  it; it says below on which identifiers \<^verbatim>\<open>replace\<close> is the stripping of a prefix.
\<close>

fun py_contains :: "string \<Rightarrow> string \<Rightarrow> bool" where
  "py_contains old [] = (old = [])"
| "py_contains old (c # cs) = (take (length old) (c # cs) = old \<or> py_contains old cs)"

section \<open>Properties of the decay model\<close>

lemma exp_arg_overflow:
  fixes a hl :: real
  assumes "0 < hl"
  shows "1024 * ln 2 < - (ln 2 / hl) * a \<longleftrightarrow> a < - 1024 * hl"
proof -
  have "1024 * ln 2 < - (ln 2 / hl) * a \<longleftrightarrow> ln 2 * 1024 < ln (2::real) * (- a / hl)"
    by (simp add: mult.commute)
  also have "\<dots> \<longleftrightarrow> 1024 < - a / hl"
    by (rule mult_less_cancel_left_pos) simp
  also have "\<dots> \<longleftrightarrow> a < - 1024 * hl"
    using assms by (auto simp add: field_simps)
  finally show ?thesis .
qed


lemma recency_decay_eq:
  assumes "0 < hl"
  shows "recency_decay a hl =
           (if a < - 1024 * hl then Inl OverflowError else Inr (exp (- ln 2 * a / hl)))"
  using assms exp_arg_overflow [OF assms, of a]
  by (simp add: recency_decay_def math_exp_def Let_def)








section \<open>Properties of the mention scorer\<close>

lemma mention_score_eq:
  "mention_score c p a x =
     (if c + 1 < 0 \<or> p + 1 < 0 then Inl ValueError
      else if a < - 46080 then Inl OverflowError
      else Inr ((sqrt (real_of_int c + 1) + 0.3 * sqrt (real_of_int p + 1))
                * exp (- ln 2 * a / 45)
                * (1 + min 0.3 (real_of_int x / 10000))))"
  by (simp add: mention_score_def math_sqrt_def recency_decay_eq HALF_LIFE_DAYS_def Let_def)








section \<open>Properties of the scoring loop\<close>

lemma mention_score_nonneg:
  assumes "mention_score c p a x = Inr s" and "0 \<le> x"
  shows "0 \<le> s"
proof -
  have s: "s = (sqrt (real_of_int c + 1) + 0.3 * sqrt (real_of_int p + 1))
                * exp (- ln 2 * a / 45) * (1 + min 0.3 (real_of_int x / 10000))"
    and c: "0 \<le> real_of_int c + 1" and p: "0 \<le> real_of_int p + 1"
    using assms(1) by (auto simp: mention_score_eq split: if_splits)
  have w: "0 \<le> sqrt (real_of_int c + 1) + 0.3 * sqrt (real_of_int p + 1)"
    using c p by simp
  have b: "0 \<le> 1 + min 0.3 (real_of_int x / 10000)"
    using assms(2) by (simp add: min_def)
  have "0 \<le> (sqrt (real_of_int c + 1) + 0.3 * sqrt (real_of_int p + 1)) * exp (- ln 2 * a / 45)"
    using w by (intro mult_nonneg_nonneg) simp_all
  then show ?thesis
    unfolding s using b by (rule mult_nonneg_nonneg)
qed


lemma score_loop_le:
  "score_loop now ms (ic, tr, n) = Inr (ic', tr', n') \<Longrightarrow> tr \<le> ic \<Longrightarrow> tr' \<le> ic'"
proof (induction ms arbitrary: ic tr n)
  case Nil
  then show ?case by simp
next
  case (Cons m ms)
  then show ?case
    by (auto simp: Let_def split: sum.splits if_splits dest!: mention_score_nonneg)
qed

lemma score_loop_ok:
  "\<forall>m\<in>set ms. - 1 \<le> score m \<and> - 1 \<le> get_post_upvotes m \<and> - 46081 < age_days_of now m \<Longrightarrow>
   \<exists>r. score_loop now ms (ic, tr, n) = Inr r"
proof (induction ms arbitrary: ic tr n)
  case Nil
  then show ?case by simp
next
  case (Cons m ms)
  then show ?case
    by (auto simp: Let_def mention_score_eq)
qed

lemma score_loop_raises:
  "\<exists>m\<in>set ms. score m < - 1 \<or> get_post_upvotes m < - 1 \<or> age_days_of now m \<le> - 46081 \<Longrightarrow>
   \<exists>e. score_loop now ms (ic, tr, n) = Inl e"
proof (induction ms arbitrary: ic tr n)
  case Nil
  then show ?case by simp
next
  case (Cons m ms)
  show ?case
  proof (cases "score m < - 1 \<or> get_post_upvotes m < - 1 \<or> age_days_of now m \<le> - 46081")
    case True
    then show ?thesis
      by (auto simp: Let_def mention_score_eq)
  next
    case False
    then have "\<exists>m\<in>set ms. score m < - 1 \<or> get_post_upvotes m < - 1
                  \<or> age_days_of now m \<le> - 46081"
      using Cons.prems by auto
    then have ih: "\<exists>e. score_loop now ms (ic', tr', n') = Inl e" for ic' tr' n'
      by (rule Cons.IH)
    show ?thesis
      using False by (simp add: Let_def mention_score_eq ih)
  qed
qed


lemma score_loop_ages:
  "\<forall>m\<in>set ms. age_days_of now1 m = age_days_of now2 m \<Longrightarrow>
   score_loop now1 ms (ic, tr, n) = score_loop now2 ms (ic, tr, n)"
proof (induction ms arbitrary: ic tr n)
  case Nil
  then show ?case by simp
next
  case (Cons m ms)
  then show ?case
    by (auto simp: Let_def split: sum.splits)
qed

lemma py_round2_mono: "x \<le> y \<Longrightarrow> py_round2 x \<le> py_round2 y"
proof -
  assume xy: "x \<le> y"
  have fl: "\<lfloor>x * 100\<rfloor> \<le> \<lfloor>y * 100\<rfloor>" using xy by (simp add: floor_mono)
  show ?thesis
  proof (cases "\<lfloor>x * 100\<rfloor> = \<lfloor>y * 100\<rfloor>")
    case True
    then show ?thesis using xy
      by (auto simp: py_round2_def Let_def)
  next
    case False
    then have "\<lfloor>x * 100\<rfloor> + 1 \<le> \<lfloor>y * 100\<rfloor>" using fl by simp
    then have "real_of_int (\<lfloor>x * 100\<rfloor> + 1) \<le> real_of_int \<lfloor>y * 100\<rfloor>"
      by (simp only: of_int_le_iff)
    then show ?thesis
      by (auto simp: py_round2_def Let_def)
  qed
qed

section \<open>The three outcomes of \<^verbatim>\<open>compute_restaurant_scores\<close>\<close>

lemma compute_None_iff:
  "compute_restaurant_scores now p ms = Inr None \<longleftrightarrow>
     ms = [] \<or> (count_unique_threads ms < MIN_THREADS \<and> sum_upvotes ms < MIN_TOTAL_UPVOTES)"
  by (auto simp: compute_restaurant_scores_def split: sum.splits prod.splits)

lemma compute_raises_iff:
  "(\<exists>e. compute_restaurant_scores now p ms = Inl e) \<longleftrightarrow>
     ms \<noteq> []
     \<and> \<not> (count_unique_threads ms < MIN_THREADS \<and> sum_upvotes ms < MIN_TOTAL_UPVOTES)
     \<and> (\<exists>m\<in>set ms. score m < - 1 \<or> get_post_upvotes m < - 1
                      \<or> age_days_of now m \<le> - 46081)"
proof (cases "\<exists>m\<in>set ms. score m < - 1 \<or> get_post_upvotes m < - 1
                         \<or> age_days_of now m \<le> - 46081")
  case True
  then obtain e where "score_loop now ms (0, 0, 0) = Inl e"
    using score_loop_raises by blast
  then show ?thesis using True
    by (auto simp: compute_restaurant_scores_def)
next
  case False
  then have "\<forall>m\<in>set ms. - 1 \<le> score m \<and> - 1 \<le> get_post_upvotes m
                \<and> - 46081 < age_days_of now m"
    by (auto simp: not_less not_le)
  then obtain r where "score_loop now ms (0, 0, 0) = Inr r"
    using score_loop_ok by blast
  then show ?thesis using False
    by (auto simp: compute_restaurant_scores_def split: prod.splits)
qed


lemma compute_Some_iff:
  "(\<exists>agg. compute_restaurant_scores now p ms = Inr (Some agg)) \<longleftrightarrow>
     ms \<noteq> []
     \<and> \<not> (count_unique_threads ms < MIN_THREADS \<and> sum_upvotes ms < MIN_TOTAL_UPVOTES)
     \<and> (\<forall>m\<in>set ms. - 1 \<le> score m \<and> - 1 \<le> get_post_upvotes m
                      \<and> - 46081 < age_days_of now m)"
proof -
  have "(\<exists>agg. compute_restaurant_scores now p ms = Inr (Some agg)) \<longleftrightarrow>
        compute_restaurant_scores now p ms \<noteq> Inr None
        \<and> \<not> (\<exists>e. compute_restaurant_scores now p ms = Inl e)"
    by (cases "compute_restaurant_scores now p ms") auto
  then show ?thesis
    unfolding compute_None_iff compute_raises_iff by (auto simp: not_less not_le)
qed

lemma compute_Some_fields:
  "compute_restaurant_scores now p ms = Inr (Some agg) \<Longrightarrow>
     place_id agg = p \<and> unique_threads agg = count_unique_threads ms
     \<and> total_mentions agg = length ms \<and> total_upvotes agg = sum_upvotes ms
     \<and> last_seen agg = max_timestamp ms \<and> top_snippets agg = top_snippets_of ms"
  by (auto simp: compute_restaurant_scores_def split: if_splits sum.splits prod.splits)

lemma compute_Some_scores:
  "compute_restaurant_scores now p ms = Inr (Some agg) \<Longrightarrow>
     \<exists>ic tr n. score_loop now ms (0, 0, 0) = Inr (ic, tr, n)
       \<and> iconic_score agg = py_round2 ic \<and> trending_score agg = py_round2 tr
       \<and> mentions_90d agg = n"
  by (auto simp: compute_restaurant_scores_def split: if_splits sum.splits prod.splits)

section \<open>Trending and iconic scores\<close>

text \<open>
  Claim C6. Every aggregate computed from mentions with non-negative upvote counts and
  non-negative ages has a trending score that is at most its iconic score.
\<close>

theorem trending_le_iconic:
  assumes "compute_restaurant_scores now p ms = Inr (Some agg)"
    and "\<forall>m\<in>set ms. 0 \<le> score m \<and> 0 \<le> get_post_upvotes m \<and> 0 \<le> age_days_of now m"
  shows "trending_score agg \<le> iconic_score agg"
proof -
  obtain ic tr n where loop: "score_loop now ms (0, 0, 0) = Inr (ic, tr, n)"
    and ic: "iconic_score agg = py_round2 ic" and tr: "trending_score agg = py_round2 tr"
    using compute_Some_scores [OF assms(1)] by blast
  have "tr \<le> ic"
    using score_loop_le [OF loop] by simp
  then show ?thesis
    unfolding ic tr by (rule py_round2_mono)
qed


theorem trending_le_iconic_witness:
  "\<exists>agg.
     compute_restaurant_scores 8640000000000 ''joes''
       [\<lparr>subreddit = ''nyc'', post_id = ''t3_a'', comment_id = Some ''t1_x'', score = 12,
          post_upvotes = None, timestamp = 0, snippet = ''old but great''\<rparr>,
        \<lparr>subreddit = ''nyc'', post_id = ''t3_b'', comment_id = None, score = 3,
          post_upvotes = Some 7, timestamp = 4320000000000, snippet = ''still good''\<rparr>]
       = Inr (Some agg)
     \<and> trending_score agg \<le> iconic_score agg"
proof -
  let ?ms = "[\<lparr>subreddit = ''nyc'', post_id = ''t3_a'', comment_id = Some ''t1_x'', score = 12,
          post_upvotes = None, timestamp = 0, snippet = ''old but great''\<rparr>,
        \<lparr>subreddit = ''nyc'', post_id = ''t3_b'', comment_id = None, score = 3,
          post_upvotes = Some 7, timestamp = 4320000000000, snippet = ''still good''\<rparr>]"
  have "\<exists>agg. compute_restaurant_scores 8640000000000 ''joes'' ?ms = Inr (Some agg)"
    by (simp add: compute_Some_iff count_unique_threads_def sum_upvotes_def
        MIN_THREADS_def MIN_TOTAL_UPVOTES_def get_post_upvotes_def age_days_of_def)
  then obtain agg where a: "compute_restaurant_scores 8640000000000 ''joes'' ?ms = Inr (Some agg)"
    by blast
  have h: "\<forall>m\<in>set ?ms. 0 \<le> score m \<and> 0 \<le> get_post_upvotes m
             \<and> 0 \<le> age_days_of 8640000000000 m"
    by (simp add: get_post_upvotes_def age_days_of_def)
  from trending_le_iconic [OF a h] a show ?thesis
    by blast
qed

section \<open>The evidence rule\<close>

lemma evidence_rule_without_exception:
  assumes "ms \<noteq> []"
    and "\<forall>m\<in>set ms. - 1 \<le> score m \<and> - 1 \<le> get_post_upvotes m \<and> - 46081 < age_days_of now m"
  shows "(\<exists>agg. compute_restaurant_scores now p ms = Inr (Some agg) \<and> place_id agg = p)
            \<longleftrightarrow> (2 \<le> count_unique_threads ms \<or> 10 \<le> sum_upvotes ms)"
proof -
  have "(\<exists>agg. compute_restaurant_scores now p ms = Inr (Some agg))
      \<longleftrightarrow> (2 \<le> count_unique_threads ms \<or> 10 \<le> sum_upvotes ms)"
    unfolding compute_Some_iff using assms
    by (auto simp: MIN_THREADS_def MIN_TOTAL_UPVOTES_def)
  moreover have "(\<exists>agg. compute_restaurant_scores now p ms = Inr (Some agg) \<and> place_id agg = p)
      \<longleftrightarrow> (\<exists>agg. compute_restaurant_scores now p ms = Inr (Some agg))"
    using compute_Some_fields by blast
  ultimately show ?thesis by simp
qed

lemma aggregations_example_groups:
  "mentions_by_place
     [(''alfa'', ''nyc'', ''t3_c'', None, 12, 0, ''great''),
      (''joes'', ''nyc'', ''t3_a'', None, - 2, 0, ''avoid''),
      (''joes'', ''nyc'', ''t3_b'', None, 20, 0, ''go'')]
   = [(''alfa'',
        [\<lparr>subreddit = ''nyc'', post_id = ''t3_c'', comment_id = None, score = 12,
           post_upvotes = None, timestamp = 0, snippet = ''great''\<rparr>]),
      (''joes'',
        [\<lparr>subreddit = ''nyc'', post_id = ''t3_a'', comment_id = None, score = - 2,
           post_upvotes = None, timestamp = 0, snippet = ''avoid''\<rparr>,
         \<lparr>subreddit = ''nyc'', post_id = ''t3_b'', comment_id = None, score = 20,
           post_upvotes = None, timestamp = 0, snippet = ''go''\<rparr>])]"
  by (simp add: mentions_by_place_def)

text \<open>
  Claim C5 is what the code sets out to do: the evidence rule of lines 80 to 82 keeps a
  group with at least 2 threads or at least 10 upvotes, and line 195 keeps every
  aggregate that is not \<^verbatim>\<open>None\<close>. The code misses it on a group that the rule keeps
  and that holds a comment with a score below \<open>- 1\<close>. The group of the place
  \<^verbatim>\<open>joes\<close> below has two threads and 18 upvotes; one of its comments has the score
  \<open>- 2\<close>, \<^verbatim>\<open>math.sqrt\<close> raises on \<open>- 2 + 1\<close>, and no aggregate is returned for the place.
  The exception leaves the loop of the batch, so the aggregate of the place \<^verbatim>\<open>alfa\<close>,
  computed before, is not part of any output either.
\<close>

theorem evidence_rule_downvoted_comment_raises:
  "count_unique_threads
     [\<lparr>subreddit = ''nyc'', post_id = ''t3_a'', comment_id = None, score = - 2,
        post_upvotes = None, timestamp = 0, snippet = ''avoid''\<rparr>,
      \<lparr>subreddit = ''nyc'', post_id = ''t3_b'', comment_id = None, score = 20,
        post_upvotes = None, timestamp = 0, snippet = ''go''\<rparr>] = 2
   \<and> sum_upvotes
     [\<lparr>subreddit = ''nyc'', post_id = ''t3_a'', comment_id = None, score = - 2,
        post_upvotes = None, timestamp = 0, snippet = ''avoid''\<rparr>,
      \<lparr>subreddit = ''nyc'', post_id = ''t3_b'', comment_id = None, score = 20,
        post_upvotes = None, timestamp = 0, snippet = ''go''\<rparr>] = 18
   \<and> compute_restaurant_scores 0 ''joes''
     [\<lparr>subreddit = ''nyc'', post_id = ''t3_a'', comment_id = None, score = - 2,
        post_upvotes = None, timestamp = 0, snippet = ''avoid''\<rparr>,
      \<lparr>subreddit = ''nyc'', post_id = ''t3_b'', comment_id = None, score = 20,
        post_upvotes = None, timestamp = 0, snippet = ''go''\<rparr>] = Inl ValueError
   \<and> aggregations (\<lambda>k. 0)
     [(''alfa'', ''nyc'', ''t3_c'', None, 12, 0, ''great''),
      (''joes'', ''nyc'', ''t3_a'', None, - 2, 0, ''avoid''),
      (''joes'', ''nyc'', ''t3_b'', None, 20, 0, ''go'')] = Inl ValueError"
proof -
  let ?a = "[\<lparr>subreddit = ''nyc'', post_id = ''t3_c'', comment_id = None, score = 12,
        post_upvotes = None, timestamp = 0, snippet = ''great''\<rparr>]"
  let ?j = "[\<lparr>subreddit = ''nyc'', post_id = ''t3_a'', comment_id = None, score = - 2,
        post_upvotes = None, timestamp = 0, snippet = ''avoid''\<rparr>,
      \<lparr>subreddit = ''nyc'', post_id = ''t3_b'', comment_id = None, score = 20,
        post_upvotes = None, timestamp = 0, snippet = ''go''\<rparr>]"
  have c: "count_unique_threads ?j = 2" and u: "sum_upvotes ?j = 18"
    by (simp_all add: count_unique_threads_def sum_upvotes_def)
  have j: "compute_restaurant_scores 0 ''joes'' ?j = Inl ValueError"
    by (simp add: compute_restaurant_scores_def c u MIN_THREADS_def MIN_TOTAL_UPVOTES_def
        Let_def mention_score_eq)
  have "\<exists>agg. compute_restaurant_scores 0 ''alfa'' ?a = Inr (Some agg)"
    by (simp add: compute_Some_iff count_unique_threads_def sum_upvotes_def
        MIN_THREADS_def MIN_TOTAL_UPVOTES_def get_post_upvotes_def age_days_of_def)
  then obtain agg where a: "compute_restaurant_scores 0 ''alfa'' ?a = Inr (Some agg)"
    by blast
  have "compute_all (\<lambda>k. 0) 0 [(''alfa'', ?a), (''joes'', ?j)] = Inl ValueError"
    by (simp add: a j)
  then have "aggregations (\<lambda>k. 0)
     [(''alfa'', ''nyc'', ''t3_c'', None, 12, 0, ''great''),
      (''joes'', ''nyc'', ''t3_a'', None, - 2, 0, ''avoid''),
      (''joes'', ''nyc'', ''t3_b'', None, 20, 0, ''go'')] = Inl ValueError"
    by (simp only: aggregations_def aggregations_example_groups)
  then show ?thesis
    using c u j by blast
qed

text \<open>
  Claim C10. \<^verbatim>\<open>compute_restaurant_scores\<close> returns \<^verbatim>\<open>None\<close> in exactly two cases, the empty
  list of mentions and a group that the evidence rule rejects, and the value returned
  in the first case is the value returned in the second.
\<close>

theorem none_cases:
  "(compute_restaurant_scores now p ms = Inr None
      \<longleftrightarrow> ms = [] \<or> (count_unique_threads ms < 2 \<and> sum_upvotes ms < 10))
   \<and> (ms' \<noteq> [] \<and> count_unique_threads ms' < 2 \<and> sum_upvotes ms' < 10
        \<longrightarrow> compute_restaurant_scores now p [] = compute_restaurant_scores now' p' ms')"
proof -
  have iff: "compute_restaurant_scores t q xs = Inr None
      \<longleftrightarrow> xs = [] \<or> (count_unique_threads xs < 2 \<and> sum_upvotes xs < 10)" for t q xs
    using compute_None_iff [of t q xs] by (simp add: MIN_THREADS_def MIN_TOTAL_UPVOTES_def)
  have "compute_restaurant_scores now p [] = Inr None"
    by (simp add: iff)
  moreover have "compute_restaurant_scores now' p' ms' = Inr None"
    if "ms' \<noteq> [] \<and> count_unique_threads ms' < 2 \<and> sum_upvotes ms' < 10"
    using that by (simp add: iff)
  ultimately show ?thesis
    using iff [of now p ms] by simp
qed

theorem none_cases_witness:
  "compute_restaurant_scores 0 ''joes'' [] = Inr None
   \<and> compute_restaurant_scores 0 ''joes'' []
       = compute_restaurant_scores 5 ''katz''
           [\<lparr>subreddit = ''nyc'', post_id = ''t3_a'', comment_id = None, score = 9,
              post_upvotes = None, timestamp = 0, snippet = ''good''\<rparr>]"
proof -
  let ?ms = "[\<lparr>subreddit = ''nyc'', post_id = ''t3_a'', comment_id = None, score = 9,
              post_upvotes = None, timestamp = 0, snippet = ''good''\<rparr>]"
  have h: "?ms \<noteq> [] \<and> count_unique_threads ?ms < 2 \<and> sum_upvotes ?ms < 10"
    by (simp add: count_unique_threads_def sum_upvotes_def)
  from none_cases [of 0 "''joes''" "[]" ?ms 5 "''katz''"] h show ?thesis
    by blast
qed

section \<open>The empty input\<close>

text \<open>
  Claim C9. With no rows, the batch computes the empty list of aggregates and raises
  nothing; \<^verbatim>\<open>compute_restaurant_scores\<close> on an empty list of mentions returns
  \<^verbatim>\<open>None\<close>, which is not an exception either.
\<close>

theorem aggregations_empty:
  "aggregations clock [] = Inr [] \<and> compute_restaurant_scores now p [] = Inr None"
  by (simp add: aggregations_def mentions_by_place_def compute_restaurant_scores_def)

section \<open>Malformed mentions\<close>




section \<open>Determinism\<close>

lemma append_mention_mentions:
  "(\<Union>g\<in>set (append_mention p m d). set (snd g)) = insert m (\<Union>g\<in>set d. set (snd g))"
proof (induction d)
  case Nil
  then show ?case by simp
next
  case (Cons g d)
  obtain q ms where g: "g = (q, ms)" by (cases g)
  show ?case
    by (auto simp add: g Cons.IH)
qed

lemma mentions_by_place_mentions:
  "(\<Union>g\<in>set (foldl (\<lambda>d r. case mention_of_row r of (p, m) \<Rightarrow> append_mention p m d)
        d rows). set (snd g))
     = (\<Union>g\<in>set d. set (snd g)) \<union> (\<lambda>r. snd (mention_of_row r)) ` set rows"
proof (induction rows arbitrary: d)
  case Nil
  then show ?case by simp
next
  case (Cons r rows)
  obtain p m where r: "mention_of_row r = (p, m)"
    by (cases "mention_of_row r")
  show ?case
    by (simp add: Cons.IH r append_mention_mentions)
qed

lemma compute_ages:
  assumes "\<forall>m\<in>set ms. age_days_of now1 m = age_days_of now2 m"
  shows "compute_restaurant_scores now1 p ms = compute_restaurant_scores now2 p ms"
  using score_loop_ages [OF assms, of 0 0 0]
  by (simp add: compute_restaurant_scores_def)

lemma compute_all_ages:
  assumes "\<forall>k. \<forall>g\<in>set d. \<forall>m\<in>set (snd g).
             age_days_of (clock1 k) m = age_days_of (clock2 k) m"
  shows "compute_all clock1 k d = compute_all clock2 k d"
  using assms
proof (induction d arbitrary: k)
  case Nil
  then show ?case by simp
next
  case (Cons g d)
  obtain q ms where g: "g = (q, ms)"
    by (cases g)
  have "\<forall>m\<in>set ms. age_days_of (clock1 k) m = age_days_of (clock2 k) m"
    using Cons.prems g by auto
  then have c: "compute_restaurant_scores (clock1 k) q ms
      = compute_restaurant_scores (clock2 k) q ms"
    by (rule compute_ages)
  have "\<forall>k. \<forall>g\<in>set d. \<forall>m\<in>set (snd g).
             age_days_of (clock1 k) m = age_days_of (clock2 k) m"
    using Cons.prems by auto
  then have ih: "compute_all clock1 k' d = compute_all clock2 k' d" for k'
    by (rule Cons.IH)
  show ?case
    by (simp add: g c ih split: sum.split option.split)
qed

lemma aggregations_ages:
  assumes "\<forall>k. \<forall>r\<in>set rows.
             age_days_of (clock1 k) (snd (mention_of_row r))
               = age_days_of (clock2 k) (snd (mention_of_row r))"
  shows "aggregations clock1 rows = aggregations clock2 rows"
proof -
  have "(\<Union>g\<in>set (mentions_by_place rows). set (snd g))
      = (\<lambda>r. snd (mention_of_row r)) ` set rows"
    unfolding mentions_by_place_def mentions_by_place_mentions by simp
  then have sub: "m \<in> (\<lambda>r. snd (mention_of_row r)) ` set rows"
    if "g \<in> set (mentions_by_place rows)" and "m \<in> set (snd g)" for g m
    using that by blast
  have "\<forall>k. \<forall>g\<in>set (mentions_by_place rows). \<forall>m\<in>set (snd g).
             age_days_of (clock1 k) m = age_days_of (clock2 k) m"
  proof (intro allI ballI)
    fix k g m
    assume "g \<in> set (mentions_by_place rows)" and "m \<in> set (snd g)"
    then obtain r where "r \<in> set rows" and "m = snd (mention_of_row r)"
      using sub by blast
    then show "age_days_of (clock1 k) m = age_days_of (clock2 k) m"
      using assms by blast
  qed
  then show ?thesis
    unfolding aggregations_def by (rule compute_all_ages)
qed

lemma top_snippets_order_example:
  "map snippet_text (top_snippets_of
     [\<lparr>subreddit = ''nyc'', post_id = ''t3_a'', comment_id = None, score = 20,
        post_upvotes = None, timestamp = 0, snippet = ''great''\<rparr>,
      \<lparr>subreddit = ''nyc'', post_id = ''t3_b'', comment_id = None, score = 20,
        post_upvotes = None, timestamp = 0, snippet = ''good''\<rparr>]) = [''great'', ''good'']
   \<and> map snippet_text (top_snippets_of
     [\<lparr>subreddit = ''nyc'', post_id = ''t3_b'', comment_id = None, score = 20,
        post_upvotes = None, timestamp = 0, snippet = ''good''\<rparr>,
      \<lparr>subreddit = ''nyc'', post_id = ''t3_a'', comment_id = None, score = 20,
        post_upvotes = None, timestamp = 0, snippet = ''great''\<rparr>]) = [''good'', ''great'']"
  by (simp add: top_snippets_of_def sorted_by_score_reverse_def snippet_of_def)

text \<open>
  Claim C1, as stated, fails. The code has no reference instant among its arguments:
  \<^verbatim>\<open>compute_restaurant_scores\<close> reads the clock at line 84, so two runs on the same
  mentions are two readings. A mention with timestamp 0 has 90 whole days at the
  reading 7862399999999 and 91 at the reading one microsecond later: the first run
  counts it in \<^verbatim>\<open>mentions_90d\<close>, the second does not. Nor is the result a function of
  the set of mentions: the same two mentions of 20 upvotes, in the two orders the
  query can deliver them, give the top snippets in two orders.
\<close>

theorem clock_and_order_counterexample:
  "map_sum id (map_option mentions_90d)
     (compute_restaurant_scores 7862399999999 ''joes''
       [\<lparr>subreddit = ''nyc'', post_id = ''t3_a'', comment_id = None, score = 12,
          post_upvotes = None, timestamp = 0, snippet = ''great''\<rparr>]) = Inr (Some 1)
   \<and> map_sum id (map_option mentions_90d)
     (compute_restaurant_scores 7862400000000 ''joes''
       [\<lparr>subreddit = ''nyc'', post_id = ''t3_a'', comment_id = None, score = 12,
          post_upvotes = None, timestamp = 0, snippet = ''great''\<rparr>]) = Inr (Some 0)
   \<and> map_sum id (map_option (\<lambda>agg. map snippet_text (top_snippets agg)))
     (compute_restaurant_scores 0 ''joes''
       [\<lparr>subreddit = ''nyc'', post_id = ''t3_a'', comment_id = None, score = 20,
          post_upvotes = None, timestamp = 0, snippet = ''great''\<rparr>,
        \<lparr>subreddit = ''nyc'', post_id = ''t3_b'', comment_id = None, score = 20,
          post_upvotes = None, timestamp = 0, snippet = ''good''\<rparr>])
     = Inr (Some [''great'', ''good''])
   \<and> map_sum id (map_option (\<lambda>agg. map snippet_text (top_snippets agg)))
     (compute_restaurant_scores 0 ''joes''
       [\<lparr>subreddit = ''nyc'', post_id = ''t3_b'', comment_id = None, score = 20,
          post_upvotes = None, timestamp = 0, snippet = ''good''\<rparr>,
        \<lparr>subreddit = ''nyc'', post_id = ''t3_a'', comment_id = None, score = 20,
          post_upvotes = None, timestamp = 0, snippet = ''great''\<rparr>])
     = Inr (Some [''good'', ''great''])"
proof -
  let ?m = "[\<lparr>subreddit = ''nyc'', post_id = ''t3_a'', comment_id = None, score = 12,
          post_upvotes = None, timestamp = 0, snippet = ''great''\<rparr>]"
  let ?ab = "[\<lparr>subreddit = ''nyc'', post_id = ''t3_a'', comment_id = None, score = 20,
          post_upvotes = None, timestamp = 0, snippet = ''great''\<rparr>,
        \<lparr>subreddit = ''nyc'', post_id = ''t3_b'', comment_id = None, score = 20,
          post_upvotes = None, timestamp = 0, snippet = ''good''\<rparr>]"
  let ?ba = "[\<lparr>subreddit = ''nyc'', post_id = ''t3_b'', comment_id = None, score = 20,
          post_upvotes = None, timestamp = 0, snippet = ''good''\<rparr>,
        \<lparr>subreddit = ''nyc'', post_id = ''t3_a'', comment_id = None, score = 20,
          post_upvotes = None, timestamp = 0, snippet = ''great''\<rparr>]"
  have 1: "map_sum id (map_option mentions_90d)
      (compute_restaurant_scores 7862399999999 ''joes'' ?m) = Inr (Some 1)"
    by (simp add: compute_restaurant_scores_def count_unique_threads_def sum_upvotes_def
        MIN_THREADS_def MIN_TOTAL_UPVOTES_def Let_def mention_score_eq age_days_of_def
        get_post_upvotes_def TRENDING_WINDOW_DAYS_def)
  have 2: "map_sum id (map_option mentions_90d)
      (compute_restaurant_scores 7862400000000 ''joes'' ?m) = Inr (Some 0)"
    by (simp add: compute_restaurant_scores_def count_unique_threads_def sum_upvotes_def
        MIN_THREADS_def MIN_TOTAL_UPVOTES_def Let_def mention_score_eq age_days_of_def
        get_post_upvotes_def TRENDING_WINDOW_DAYS_def)
  have "\<exists>agg. compute_restaurant_scores 0 ''joes'' ?ab = Inr (Some agg)"
    and "\<exists>agg. compute_restaurant_scores 0 ''joes'' ?ba = Inr (Some agg)"
    by (simp_all add: compute_Some_iff count_unique_threads_def sum_upvotes_def
        MIN_THREADS_def MIN_TOTAL_UPVOTES_def get_post_upvotes_def age_days_of_def)
  then obtain x y where x: "compute_restaurant_scores 0 ''joes'' ?ab = Inr (Some x)"
    and y: "compute_restaurant_scores 0 ''joes'' ?ba = Inr (Some y)"
    by blast
  have "top_snippets x = top_snippets_of ?ab" and "top_snippets y = top_snippets_of ?ba"
    using compute_Some_fields [OF x] compute_Some_fields [OF y] by simp_all
  then have 3: "map_sum id (map_option (\<lambda>agg. map snippet_text (top_snippets agg)))
      (compute_restaurant_scores 0 ''joes'' ?ab) = Inr (Some [''great'', ''good''])"
    and 4: "map_sum id (map_option (\<lambda>agg. map snippet_text (top_snippets agg)))
      (compute_restaurant_scores 0 ''joes'' ?ba) = Inr (Some [''good'', ''great''])"
    using top_snippets_order_example by (simp_all add: x y)
  show ?thesis
    using 1 2 3 4 by blast
qed

text \<open>
  Claim C1, amended. The result of \<^verbatim>\<open>compute_restaurant_scores\<close> is a function of the
  place, the list of mentions in the order given, and the clock reading of line 84,
  and it depends on the reading only through the whole-day ages of the mentions: two
  runs on the same list whose readings give every mention the same age return the same
  value, the top snippets and their order included. In the same way the list of
  aggregates of the batch is the same for two runs on the same rows, in the same
  order, whose clock readings give every mention the same age.
\<close>

theorem aggregation_determined_by_ages:
  "((\<forall>m\<in>set ms. age_days_of now1 m = age_days_of now2 m)
      \<longrightarrow> compute_restaurant_scores now1 p ms = compute_restaurant_scores now2 p ms)
   \<and> ((\<forall>k. \<forall>r\<in>set rows.
          age_days_of (clock1 k) (snd (mention_of_row r))
            = age_days_of (clock2 k) (snd (mention_of_row r)))
      \<longrightarrow> aggregations clock1 rows = aggregations clock2 rows)"
  using compute_ages [of ms now1 now2 p] aggregations_ages [of rows clock1 clock2]
  by blast

theorem aggregation_determined_by_ages_witness:
  "compute_restaurant_scores 8640000000000 ''joes''
     [\<lparr>subreddit = ''nyc'', post_id = ''t3_a'', comment_id = None, score = 20,
        post_upvotes = None, timestamp = 0, snippet = ''great''\<rparr>,
      \<lparr>subreddit = ''nyc'', post_id = ''t3_b'', comment_id = None, score = 20,
        post_upvotes = None, timestamp = 4320000000000, snippet = ''good''\<rparr>]
   = compute_restaurant_scores 8640000001000 ''joes''
     [\<lparr>subreddit = ''nyc'', post_id = ''t3_a'', comment_id = None, score = 20,
        post_upvotes = None, timestamp = 0, snippet = ''great''\<rparr>,
      \<lparr>subreddit = ''nyc'', post_id = ''t3_b'', comment_id = None, score = 20,
        post_upvotes = None, timestamp = 4320000000000, snippet = ''good''\<rparr>]
   \<and> aggregations (\<lambda>k. 8640000000000)
        [(''joes'', ''nyc'', ''t3_a'', None, 20, 0, ''great''),
         (''katz'', ''nyc'', ''t3_b'', None, 12, 4320000000000, ''good'')]
     = aggregations (\<lambda>k. 8640000001000)
        [(''joes'', ''nyc'', ''t3_a'', None, 20, 0, ''great''),
         (''katz'', ''nyc'', ''t3_b'', None, 12, 4320000000000, ''good'')]"
proof -
  let ?ms = "[\<lparr>subreddit = ''nyc'', post_id = ''t3_a'', comment_id = None, score = 20,
        post_upvotes = None, timestamp = 0, snippet = ''great''\<rparr>,
      \<lparr>subreddit = ''nyc'', post_id = ''t3_b'', comment_id = None, score = 20,
        post_upvotes = None, timestamp = 4320000000000, snippet = ''good''\<rparr>]"
  let ?rows = "[(''joes'', ''nyc'', ''t3_a'', None :: string option, 20 :: int, 0 :: int, ''great''),
         (''katz'', ''nyc'', ''t3_b'', None, 12, 4320000000000, ''good'')]"
  have a: "\<forall>m\<in>set ?ms. age_days_of 8640000000000 m = age_days_of 8640000001000 m"
    by (simp add: age_days_of_def)
  have c: "\<forall>k::nat. \<forall>r\<in>set ?rows.
          age_days_of ((\<lambda>k. 8640000000000) k) (snd (mention_of_row r))
            = age_days_of ((\<lambda>k. 8640000001000) k) (snd (mention_of_row r))"
    by (simp add: age_days_of_def)
  from aggregation_determined_by_ages [of ?ms 8640000000000 8640000001000 "''joes''" ?rows
         "\<lambda>k. 8640000000000" "\<lambda>k. 8640000001000"] a c
  show ?thesis
    by blast
qed

section \<open>Top snippets\<close>

lemma sorted_by_score_reverse_desc:
  "sorted_wrt (\<lambda>a b. score b \<le> score a) (sorted_by_score_reverse ms)"
proof -
  have "sorted (map (\<lambda>m. - score m) (sort_key (\<lambda>m. - score m) ms))"
    by (rule sorted_sort_key)
  then show ?thesis
    by (simp add: sorted_by_score_reverse_def sorted_map)
qed

lemma sorted_by_score_reverse_stable:
  "filter (\<lambda>m. score m = k) (sorted_by_score_reverse ms) = filter (\<lambda>m. score m = k) ms"
  using sort_key_stable [of "\<lambda>m. - score m" "- k" ms]
  by (simp add: sorted_by_score_reverse_def)

lemma sorted_by_score_reverse_mset:
  "mset (sorted_by_score_reverse ms) = mset ms"
  by (simp add: sorted_by_score_reverse_def)

lemma top_snippets_of_length: "length (top_snippets_of ms) = min 3 (length ms)"
  by (simp add: top_snippets_of_def sorted_by_score_reverse_def min.commute)

lemma top_snippets_of_text: "s \<in> set (top_snippets_of ms) \<Longrightarrow> length (snippet_text s) \<le> 200"
  by (auto simp: top_snippets_of_def snippet_of_def)

lemma top_snippets_of_spec:
  "sorted (map timestamp ms) \<Longrightarrow> top_snippets_of ms = spec_top_snippets ms"
  by (simp add: top_snippets_of_def spec_top_snippets_def sorted_by_score_reverse_def
      sort_key_id_if_sorted)

lemma top_snippets_of_example:
  "score m1 = 5 \<Longrightarrow> score m2 = 20 \<Longrightarrow> score m3 = 3 \<Longrightarrow> score m4 = 20 \<Longrightarrow>
   top_snippets_of [m1, m2, m3, m4] = [snippet_of m2, snippet_of m4, snippet_of m1]"
  by (simp add: top_snippets_of_def sorted_by_score_reverse_def)

text \<open>
  Claim C3, as stated, fails: a tie in upvotes is not broken by the earlier timestamp.
  Of two mentions with 20 upvotes each, the one that comes first in the list stays
  first, although its timestamp is the later one; the order the specification
  describes is the opposite one.
\<close>

theorem top_snippets_tie_counterexample:
  "map snippet_text (top_snippets_of
     [\<lparr>subreddit = ''nyc'', post_id = ''t3_a'', comment_id = None, score = 20,
        post_upvotes = None, timestamp = 4, snippet = ''later''\<rparr>,
      \<lparr>subreddit = ''nyc'', post_id = ''t3_b'', comment_id = None, score = 20,
        post_upvotes = None, timestamp = 2, snippet = ''earlier''\<rparr>])
     = [''later'', ''earlier'']
   \<and> map snippet_text (spec_top_snippets
     [\<lparr>subreddit = ''nyc'', post_id = ''t3_a'', comment_id = None, score = 20,
        post_upvotes = None, timestamp = 4, snippet = ''later''\<rparr>,
      \<lparr>subreddit = ''nyc'', post_id = ''t3_b'', comment_id = None, score = 20,
        post_upvotes = None, timestamp = 2, snippet = ''earlier''\<rparr>])
     = [''earlier'', ''later'']"
  by (simp add: top_snippets_of_def spec_top_snippets_def sorted_by_score_reverse_def
      snippet_of_def)

text \<open>
  Claim C3, amended. The top snippets are the first three mentions of the list sorted
  by upvote count, descending, where mentions of equal count keep the order they have
  in the input list, whatever their timestamps; each text is cut to 200 characters.
  When the input list is in ascending order of timestamp this is the order of the
  specification. For mentions given in the order of upvotes 5, 20, 3, 20 the snippets
  are those of the second, the fourth and the first mention.
\<close>

theorem top_snippets_stable_sort:
  "top_snippets_of ms = map snippet_of (take 3 (sorted_by_score_reverse ms))
   \<and> mset (sorted_by_score_reverse ms) = mset ms
   \<and> sorted_wrt (\<lambda>a b. score b \<le> score a) (sorted_by_score_reverse ms)
   \<and> (\<forall>k. filter (\<lambda>m. score m = k) (sorted_by_score_reverse ms)
            = filter (\<lambda>m. score m = k) ms)
   \<and> length (top_snippets_of ms) = min 3 (length ms)
   \<and> (\<forall>s\<in>set (top_snippets_of ms). length (snippet_text s) \<le> 200)
   \<and> snippet_text (snippet_of m) = take 200 (snippet m)
   \<and> (sorted (map timestamp ms) \<longrightarrow> top_snippets_of ms = spec_top_snippets ms)
   \<and> (score m1 = 5 \<and> score m2 = 20 \<and> score m3 = 3 \<and> score m4 = 20
        \<longrightarrow> top_snippets_of [m1, m2, m3, m4] = [snippet_of m2, snippet_of m4, snippet_of m1])
   \<and> (compute_restaurant_scores now p ms = Inr (Some agg)
        \<longrightarrow> top_snippets agg = top_snippets_of ms)"
proof -
  have "top_snippets_of ms = map snippet_of (take 3 (sorted_by_score_reverse ms))"
    by (simp add: top_snippets_of_def)
  moreover have "\<forall>s\<in>set (top_snippets_of ms). length (snippet_text s) \<le> 200"
    using top_snippets_of_text by blast
  moreover have "snippet_text (snippet_of m) = take 200 (snippet m)"
    by (simp add: snippet_of_def)
  moreover have "score m1 = 5 \<and> score m2 = 20 \<and> score m3 = 3 \<and> score m4 = 20
        \<longrightarrow> top_snippets_of [m1, m2, m3, m4] = [snippet_of m2, snippet_of m4, snippet_of m1]"
    using top_snippets_of_example by blast
  moreover have "compute_restaurant_scores now p ms = Inr (Some agg)
        \<longrightarrow> top_snippets agg = top_snippets_of ms"
    using compute_Some_fields by blast
  ultimately show ?thesis
    using sorted_by_score_reverse_mset [of ms] sorted_by_score_reverse_desc [of ms]
      sorted_by_score_reverse_stable [of _ ms] top_snippets_of_length [of ms]
      top_snippets_of_spec [of ms]
    by blast
qed

theorem top_snippets_stable_sort_witness:
  "map snippet_text (top_snippets_of
     [\<lparr>subreddit = ''nyc'', post_id = ''t3_a'', comment_id = None, score = 5,
        post_upvotes = None, timestamp = 1, snippet = ''first''\<rparr>,
      \<lparr>subreddit = ''nyc'', post_id = ''t3_b'', comment_id = None, score = 20,
        post_upvotes = None, timestamp = 2, snippet = ''second''\<rparr>,
      \<lparr>subreddit = ''nyc'', post_id = ''t3_c'', comment_id = None, score = 3,
        post_upvotes = None, timestamp = 3, snippet = ''third''\<rparr>,
      \<lparr>subreddit = ''nyc'', post_id = ''t3_d'', comment_id = None, score = 20,
        post_upvotes = None, timestamp = 4, snippet = ''fourth''\<rparr>])
     = [''second'', ''fourth'', ''first'']
   \<and> top_snippets_of
     [\<lparr>subreddit = ''nyc'', post_id = ''t3_a'', comment_id = None, score = 5,
        post_upvotes = None, timestamp = 1, snippet = ''first''\<rparr>,
      \<lparr>subreddit = ''nyc'', post_id = ''t3_b'', comment_id = None, score = 20,
        post_upvotes = None, timestamp = 2, snippet = ''second''\<rparr>,
      \<lparr>subreddit = ''nyc'', post_id = ''t3_c'', comment_id = None, score = 3,
        post_upvotes = None, timestamp = 3, snippet = ''third''\<rparr>,
      \<lparr>subreddit = ''nyc'', post_id = ''t3_d'', comment_id = None, score = 20,
        post_upvotes = None, timestamp = 4, snippet = ''fourth''\<rparr>]
     = spec_top_snippets
     [\<lparr>subreddit = ''nyc'', post_id = ''t3_a'', comment_id = None, score = 5,
        post_upvotes = None, timestamp = 1, snippet = ''first''\<rparr>,
      \<lparr>subreddit = ''nyc'', post_id = ''t3_b'', comment_id = None, score = 20,
        post_upvotes = None, timestamp = 2, snippet = ''second''\<rparr>,
      \<lparr>subreddit = ''nyc'', post_id = ''t3_c'', comment_id = None, score = 3,
        post_upvotes = None, timestamp = 3, snippet = ''third''\<rparr>,
      \<lparr>subreddit = ''nyc'', post_id = ''t3_d'', comment_id = None, score = 20,
        post_upvotes = None, timestamp = 4, snippet = ''fourth''\<rparr>]"
proof -
  let ?m1 = "\<lparr>subreddit = ''nyc'', post_id = ''t3_a'', comment_id = None, score = 5,
        post_upvotes = None, timestamp = 1, snippet = ''first''\<rparr>"
  let ?m2 = "\<lparr>subreddit = ''nyc'', post_id = ''t3_b'', comment_id = None, score = 20,
        post_upvotes = None, timestamp = 2, snippet = ''second''\<rparr>"
  let ?m3 = "\<lparr>subreddit = ''nyc'', post_id = ''t3_c'', comment_id = None, score = 3,
        post_upvotes = None, timestamp = 3, snippet = ''third''\<rparr>"
  let ?m4 = "\<lparr>subreddit = ''nyc'', post_id = ''t3_d'', comment_id = None, score = 20,
        post_upvotes = None, timestamp = 4, snippet = ''fourth''\<rparr>"
  have sc: "score ?m1 = 5 \<and> score ?m2 = 20 \<and> score ?m3 = 3 \<and> score ?m4 = 20"
    by simp
  have ts: "sorted (map timestamp [?m1, ?m2, ?m3, ?m4])"
    by simp
  have "top_snippets_of [?m1, ?m2, ?m3, ?m4] = [snippet_of ?m2, snippet_of ?m4, snippet_of ?m1]"
    and sp: "top_snippets_of [?m1, ?m2, ?m3, ?m4] = spec_top_snippets [?m1, ?m2, ?m3, ?m4]"
    using top_snippets_stable_sort [of "[?m1, ?m2, ?m3, ?m4]" ?m1 ?m1 ?m2 ?m3 ?m4] sc ts
    by blast+
  then have "map snippet_text (top_snippets_of [?m1, ?m2, ?m3, ?m4])
      = [''second'', ''fourth'', ''first'']"
    by (simp add: snippet_of_def)
  then show ?thesis
    using sp by blast
qed

section \<open>Permalinks\<close>

lemma py_contains_iff:
  "py_contains old s \<longleftrightarrow> (\<exists>u v. s = u @ old @ v)"
proof (induction s)
  case Nil
  then show ?case by auto
next
  case (Cons c cs)
  show ?case
  proof
    assume "py_contains old (c # cs)"
    then consider "take (length old) (c # cs) = old" | "py_contains old cs"
      by auto
    then show "\<exists>u v. c # cs = u @ old @ v"
    proof cases
      case 1
      then have "c # cs = [] @ old @ drop (length old) (c # cs)"
        by (metis append_Nil append_take_drop_id)
      then show ?thesis by blast
    next
      case 2
      then obtain u v where "cs = u @ old @ v"
        using Cons.IH by blast
      then have "c # cs = (c # u) @ old @ v"
        by simp
      then show ?thesis by blast
    qed
  next
    assume "\<exists>u v. c # cs = u @ old @ v"
    then obtain u v where uv: "c # cs = u @ old @ v"
      by blast
    show "py_contains old (c # cs)"
    proof (cases u)
      case Nil
      then have "take (length old) (c # cs) = old"
        using uv by simp
      then show ?thesis by simp
    next
      case (Cons a u')
      then have "cs = u' @ old @ v"
        using uv by simp
      then have "py_contains old cs"
        using Cons.IH by blast
      then show ?thesis by simp
    qed
  qed
qed

lemma py_replace_absent:
  "old \<noteq> [] \<Longrightarrow> \<not> py_contains old s \<Longrightarrow> py_replace old new s = s"
  by (induction s) simp_all

lemma py_replace_prefix:
  "old \<noteq> [] \<Longrightarrow> py_replace old new (old @ s) = new @ py_replace old new s"
  by (cases old) simp_all

lemma py_replace_strip:
  assumes "old \<noteq> []" and "\<not> py_contains old (strip_type_prefix old s)"
  shows "py_replace old [] s = strip_type_prefix old s"
proof (cases "take (length old) s = old")
  case True
  then have s: "s = old @ drop (length old) s"
    by (metis append_take_drop_id)
  have "py_replace old [] (old @ drop (length old) s) = py_replace old [] (drop (length old) s)"
    using py_replace_prefix [OF assms(1), of "[]"] by simp
  also have "\<dots> = drop (length old) s"
    using assms True by (intro py_replace_absent) (simp_all add: strip_type_prefix_def)
  finally show ?thesis
    using s True by (simp add: strip_type_prefix_def)
next
  case False
  then show ?thesis
    using assms by (simp add: strip_type_prefix_def py_replace_absent)
qed

lemma py_replace_length:
  "old \<noteq> [] \<Longrightarrow> length (py_replace old [] s) \<le> length s"
  by (induction old "[] :: string" s rule: py_replace.induct) auto

lemma py_replace_shorter:
  "old \<noteq> [] \<Longrightarrow> py_contains old s \<Longrightarrow> length (py_replace old [] s) < length s"
proof (induction s)
  case Nil
  then show ?case by simp
next
  case (Cons c cs)
  show ?case
  proof (cases "take (length old) (c # cs) = old")
    case True
    have "length (py_replace old [] (drop (length old) (c # cs)))
        \<le> length (drop (length old) (c # cs))"
      using Cons.prems(1) by (rule py_replace_length)
    also have "\<dots> < length (c # cs)"
      using Cons.prems(1) by simp
    finally show ?thesis
      using True Cons.prems(1) by simp
  next
    case False
    then have "py_contains old cs"
      using Cons.prems(2) by simp
    then have "length (py_replace old [] cs) < length cs"
      using Cons.IH Cons.prems(1) by blast
    then show ?thesis
      using False Cons.prems(1) by simp
  qed
qed

lemma py_replace_strip_iff:
  assumes "old \<noteq> []"
  shows "py_replace old [] s = strip_type_prefix old s
           \<longleftrightarrow> \<not> py_contains old (strip_type_prefix old s)"
proof
  assume eq: "py_replace old [] s = strip_type_prefix old s"
  show "\<not> py_contains old (strip_type_prefix old s)"
  proof
    assume c: "py_contains old (strip_type_prefix old s)"
    have "py_replace old [] s = py_replace old [] (strip_type_prefix old s)"
    proof (cases "take (length old) s = old")
      case True
      then have "s = old @ drop (length old) s"
        by (metis append_take_drop_id)
      then have "py_replace old [] s = py_replace old [] (drop (length old) s)"
        using py_replace_prefix [OF assms, of "[]" "drop (length old) s"] by simp
      then show ?thesis
        using True by (simp add: strip_type_prefix_def)
    next
      case False
      then show ?thesis
        by (simp add: strip_type_prefix_def)
    qed
    then have "length (py_replace old [] s) < length (strip_type_prefix old s)"
      using py_replace_shorter [OF assms c] by simp
    then show False
      using eq by simp
  qed
next
  assume "\<not> py_contains old (strip_type_prefix old s)"
  then show "py_replace old [] s = strip_type_prefix old s"
    using assms by (intro py_replace_strip)
qed

text \<open>
  \<^verbatim>\<open>replace\<close> is the stripping of the prefix on exactly those identifiers
  (\<open>py_replace_strip_iff\<close>). On a string that holds the prefix a second time, which no
  identifier of Reddit does, it removes the second occurrence as well.
\<close>

lemma py_replace_inner_occurrence:
  "py_replace ''t3_'' [] ''t3_at3_b'' = ''ab'' \<and> strip_type_prefix ''t3_'' ''t3_at3_b'' = ''at3_b''"
  by (simp add: strip_type_prefix_def)

text \<open>
  Claim C4. The identifiers of Reddit are a type prefix, \<^verbatim>\<open>t3_\<close> for a thread and
  \<^verbatim>\<open>t1_\<close> for a comment, followed by digits and lower-case letters, or that body
  alone. On every identifier that holds no further occurrence of its prefix once the
  prefix is stripped, which includes all of those, \<^verbatim>\<open>replace\<close> strips the prefix and
  nothing else. So for a mention with such a thread identifier, and a comment
  identifier that is \<^verbatim>\<open>None\<close> or a string of that kind that is not empty, the
  permalink is \<^verbatim>\<open>https://reddit.com/r/{subreddit}/comments/{thread id}\<close> with the
  prefix stripped, followed by \<^verbatim>\<open>/_/{comment id}\<close>, prefix stripped, exactly when the
  comment identifier is not \<^verbatim>\<open>None\<close>; and it is the permalink attached to the
  mention's snippet.
\<close>

theorem permalink_format:
  assumes "\<not> py_contains ''t3_'' (strip_type_prefix ''t3_'' (post_id m))"
    and "\<forall>c. comment_id m = Some c
           \<longrightarrow> c \<noteq> [] \<and> \<not> py_contains ''t1_'' (strip_type_prefix ''t1_'' c)"
  shows "permalink_of m = spec_permalink m
       \<and> (comment_id m = None \<longrightarrow>
            permalink_of m
              = ''https://reddit.com/r/'' @ subreddit m @ ''/comments/''
                  @ strip_type_prefix ''t3_'' (post_id m))
       \<and> (\<forall>c. comment_id m = Some c \<longrightarrow>
            permalink_of m
              = ''https://reddit.com/r/'' @ subreddit m @ ''/comments/''
                  @ strip_type_prefix ''t3_'' (post_id m)
                  @ ''/_/'' @ strip_type_prefix ''t1_'' c)
       \<and> permalink (snippet_of m) = permalink_of m"
proof -
  have t: "py_replace ''t3_'' [] (post_id m) = strip_type_prefix ''t3_'' (post_id m)"
    using assms(1) by (intro py_replace_strip) simp_all
  have c: "c \<noteq> [] \<and> py_replace ''t1_'' [] c = strip_type_prefix ''t1_'' c"
    if "comment_id m = Some c" for c
  proof -
    have "c \<noteq> []" and "\<not> py_contains ''t1_'' (strip_type_prefix ''t1_'' c)"
      using assms(2) that by blast+
    then show ?thesis
      by (simp add: py_replace_strip)
  qed
  have 1: "permalink_of m = spec_permalink m"
  proof (cases "comment_id m")
    case None
    then show ?thesis
      by (simp add: permalink_of_def spec_permalink_def t)
  next
    case (Some c)
    then show ?thesis
      using c [OF Some] by (simp add: permalink_of_def spec_permalink_def t)
  qed
  have 2: "comment_id m = None \<longrightarrow>
            permalink_of m
              = ''https://reddit.com/r/'' @ subreddit m @ ''/comments/''
                  @ strip_type_prefix ''t3_'' (post_id m)"
    by (simp add: permalink_of_def t)
  have 3: "\<forall>c. comment_id m = Some c \<longrightarrow>
            permalink_of m
              = ''https://reddit.com/r/'' @ subreddit m @ ''/comments/''
                  @ strip_type_prefix ''t3_'' (post_id m)
                  @ ''/_/'' @ strip_type_prefix ''t1_'' c"
  proof (intro allI impI)
    fix c
    assume s: "comment_id m = Some c"
    show "permalink_of m
              = ''https://reddit.com/r/'' @ subreddit m @ ''/comments/''
                  @ strip_type_prefix ''t3_'' (post_id m)
                  @ ''/_/'' @ strip_type_prefix ''t1_'' c"
      using c [OF s] by (simp add: permalink_of_def t s)
  qed
  have 4: "permalink (snippet_of m) = permalink_of m"
    by (simp add: snippet_of_def)
  show ?thesis using 1 2 3 4 by blast
qed

theorem permalink_format_witness:
  "permalink_of
     \<lparr>subreddit = ''nyc'', post_id = ''t3_abc12'', comment_id = Some ''t1_xyz9'', score = 1,
        post_upvotes = None, timestamp = 0, snippet = ''good''\<rparr>
     = ''https://reddit.com/r/nyc/comments/abc12/_/xyz9''
   \<and> permalink_of
     \<lparr>subreddit = ''nyc'', post_id = ''t3_abc12'', comment_id = None, score = 1,
        post_upvotes = None, timestamp = 0, snippet = ''good''\<rparr>
     = ''https://reddit.com/r/nyc/comments/abc12''
   \<and> permalink_of
     \<lparr>subreddit = ''nyc'', post_id = ''abc12'', comment_id = Some ''t1_x_y'', score = 1,
        post_upvotes = None, timestamp = 0, snippet = ''good''\<rparr>
     = ''https://reddit.com/r/nyc/comments/abc12/_/x_y''"
proof -
  let ?m = "\<lparr>subreddit = ''nyc'', post_id = ''t3_abc12'', comment_id = Some ''t1_xyz9'', score = 1,
        post_upvotes = None, timestamp = 0, snippet = ''good''\<rparr>"
  let ?n = "\<lparr>subreddit = ''nyc'', post_id = ''t3_abc12'', comment_id = None, score = 1,
        post_upvotes = None, timestamp = 0, snippet = ''good''\<rparr>"
  let ?b = "\<lparr>subreddit = ''nyc'', post_id = ''abc12'', comment_id = Some ''t1_x_y'', score = 1,
        post_upvotes = None, timestamp = 0, snippet = ''good''\<rparr>"
  have pm: "\<not> py_contains ''t3_'' (strip_type_prefix ''t3_'' (post_id ?m))"
    and pn: "\<not> py_contains ''t3_'' (strip_type_prefix ''t3_'' (post_id ?n))"
    and pb: "\<not> py_contains ''t3_'' (strip_type_prefix ''t3_'' (post_id ?b))"
    by (simp_all add: strip_type_prefix_def)
  have cm: "\<forall>c. comment_id ?m = Some c
           \<longrightarrow> c \<noteq> [] \<and> \<not> py_contains ''t1_'' (strip_type_prefix ''t1_'' c)"
    and cn: "\<forall>c. comment_id ?n = Some c
           \<longrightarrow> c \<noteq> [] \<and> \<not> py_contains ''t1_'' (strip_type_prefix ''t1_'' c)"
    and cb: "\<forall>c. comment_id ?b = Some c
           \<longrightarrow> c \<noteq> [] \<and> \<not> py_contains ''t1_'' (strip_type_prefix ''t1_'' c)"
    by (simp_all add: strip_type_prefix_def)
  have "permalink_of ?m = spec_permalink ?m" and "permalink_of ?n = spec_permalink ?n"
    and "permalink_of ?b = spec_permalink ?b"
    using permalink_format [OF pm cm] permalink_format [OF pn cn] permalink_format [OF pb cb]
    by blast+
  then show ?thesis
    by (simp add: spec_permalink_def strip_type_prefix_def)
qed

end
